theory Spec2Isabelle
  imports Complex_Main
begin

section \<open>JavaScript string primitives used by the extension and the server\<close>

text \<open>
  Strings are modelled as \<^typ>\<open>string\<close>, one \<^typ>\<open>char\<close> per code unit; the model
  therefore covers the strings whose code units are below 256 (every character that
  a FEN field, a selector or a message of this program contains is ASCII).
\<close>

text \<open>\<^verbatim>\<open>s.split(sep)\<close> with a one-character separator: every occurrence of the
  separator ends a field, and the empty string gives one empty field.\<close>

fun split_on :: "char \<Rightarrow> string \<Rightarrow> string list" where
  "split_on sep [] = [[]]"
| "split_on sep (c # cs) =
     (if c = sep then [] # split_on sep cs
      else (case split_on sep cs of
              [] \<Rightarrow> [[c]]
            | f # fs \<Rightarrow> (c # f) # fs))"

text \<open>\<^verbatim>\<open>s.startsWith(t)\<close> and \<^verbatim>\<open>s.includes(t)\<close>: \<open>t\<close> occurs in \<open>s\<close> as a
  contiguous substring (the empty string occurs everywhere).\<close>

fun startsWith :: "string \<Rightarrow> string \<Rightarrow> bool" where
  "startsWith s [] = True"
| "startsWith [] (d # ds) = False"
| "startsWith (c # cs) (d # ds) = (c = d \<and> startsWith cs ds)"

fun includes_str :: "string \<Rightarrow> string \<Rightarrow> bool" where
  "includes_str [] t = (t = [])"
| "includes_str (c # cs) t = (startsWith (c # cs) t \<or> includes_str cs t)"

text \<open>\<^verbatim>\<open>parseInt(char)\<close> on a single decimal digit.\<close>

definition parseInt :: "char \<Rightarrow> nat" where
  "parseInt c = of_char c - of_char CHR ''0''"

text \<open>The white-space class \<^verbatim>\<open>\s\<close> (restricted to code units below 256) and
  \<^verbatim>\<open>String.prototype.trim\<close>.\<close>

definition white_space :: "char list" where
  "white_space = [CHR 0x09, CHR 0x0A, CHR 0x0B, CHR 0x0C, CHR 0x0D, CHR 0x20, CHR 0xA0]"

definition trim :: "string \<Rightarrow> string" where
  "trim s = rev (dropWhile (\<lambda>c. c \<in> set white_space)
                  (rev (dropWhile (\<lambda>c. c \<in> set white_space) s)))"

section \<open>Regular expressions\<close>

text \<open>
  The regular expressions of the source use character classes, concatenation,
  alternation, \<^verbatim>\<open>+\<close>, a counted repetition and the anchors \<^verbatim>\<open>^\<close> and \<^verbatim>\<open>$\<close> only,
  so \<^verbatim>\<open>s.match(re)\<close> is truthy exactly when \<open>s\<close> belongs to a regular language.
  An expression anchored on both sides is matched against the whole string.
\<close>

datatype cls = OneOf "char list" | AnyChar

fun in_cls :: "cls \<Rightarrow> char \<Rightarrow> bool" where
  "in_cls (OneOf cs) c = (c \<in> set cs)"
| "in_cls AnyChar c = True"

datatype regex =
    Fail
  | Eps
  | Atom cls
  | Seq regex regex
  | Alt regex regex
  | Star regex

definition OneOrMore :: "regex \<Rightarrow> regex" where
  "OneOrMore r = Seq r (Star r)"

fun Times :: "nat \<Rightarrow> regex \<Rightarrow> regex" where
  "Times 0 r = Eps"
| "Times (Suc n) r = Seq r (Times n r)"

fun nullable :: "regex \<Rightarrow> bool" where
  "nullable Fail = False"
| "nullable Eps = True"
| "nullable (Atom a) = False"
| "nullable (Seq r s) = (nullable r \<and> nullable s)"
| "nullable (Alt r s) = (nullable r \<or> nullable s)"
| "nullable (Star r) = True"

text \<open>The residual of an expression after one character, with the dead branches
  pruned as they arise.\<close>

definition seq :: "regex \<Rightarrow> regex \<Rightarrow> regex" where
  "seq r s = (if r = Fail \<or> s = Fail then Fail else if r = Eps then s else Seq r s)"

definition alt :: "regex \<Rightarrow> regex \<Rightarrow> regex" where
  "alt r s = (if r = Fail then s else if s = Fail then r else Alt r s)"

fun deriv :: "char \<Rightarrow> regex \<Rightarrow> regex" where
  "deriv c Fail = Fail"
| "deriv c Eps = Fail"
| "deriv c (Atom a) = (if in_cls a c then Eps else Fail)"
| "deriv c (Seq r s) =
     (if nullable r then alt (seq (deriv c r) s) (deriv c s) else seq (deriv c r) s)"
| "deriv c (Alt r s) = alt (deriv c r) (deriv c s)"
| "deriv c (Star r) = seq (deriv c r) (Star r)"

fun matches :: "regex \<Rightarrow> string \<Rightarrow> bool" where
  "matches r [] = nullable r"
| "matches r (c # cs) = matches (deriv c r) cs"

text \<open>The language an expression denotes; \<open>matches\<close> decides it (lemma
  \<open>matches_lang\<close> below).\<close>

inductive_set star :: "string set \<Rightarrow> string set" for A :: "string set" where
  star_nil: "[] \<in> star A"
| star_app: "u \<in> A \<Longrightarrow> v \<in> star A \<Longrightarrow> u @ v \<in> star A"

fun lang :: "regex \<Rightarrow> string set" where
  "lang Fail = {}"
| "lang Eps = {[]}"
| "lang (Atom a) = {[c] | c. in_cls a c}"
| "lang (Seq r s) = {u @ v | u v. u \<in> lang r \<and> v \<in> lang s}"
| "lang (Alt r s) = lang r \<union> lang s"
| "lang (Star r) = star (lang r)"

section \<open>The client's FEN-shape validator (\<^verbatim>\<open>isValidFEN\<close>)\<close>

definition pieces :: string where
  "pieces = ''pnbrqkPNBRQK''"

text \<open>The inner loop over the characters of one rank; \<open>None\<close> is the
  \<^verbatim>\<open>return false\<close> on a character that is neither a digit 1-8 nor a piece letter.\<close>

fun rank_sum :: "string \<Rightarrow> nat \<Rightarrow> nat option" where
  "rank_sum [] acc = Some acc"
| "rank_sum (c # cs) acc =
     (if includes_str ''12345678'' [c] then rank_sum cs (acc + parseInt c)
      else if includes_str pieces [c] then rank_sum cs (acc + 1)
      else None)"

text \<open>The outer loop over the ranks.\<close>

fun ranks_ok :: "string list \<Rightarrow> bool" where
  "ranks_ok [] = True"
| "ranks_ok (rank # ranks) =
     (case rank_sum rank 0 of
        None \<Rightarrow> False
      | Some acc \<Rightarrow> if acc \<noteq> 8 then False else ranks_ok ranks)"

text \<open>
  \<^verbatim>\<open>/^-|[KQkq]+$/\<close>: the alternation binds weaker than the anchors, so the
  expression is \<^verbatim>\<open>^-\<close> or \<^verbatim>\<open>[KQkq]+$\<close>. The first alternative is anchored at the
  start only and the second at the end only, so a match exists exactly when the string
  is a \<^verbatim>\<open>-\<close> followed by anything, or anything followed by letters of \<^verbatim>\<open>KQkq\<close>.
\<close>

definition castling_re :: regex where
  "castling_re = Alt (Seq (Atom (OneOf ''-'')) (Star (Atom AnyChar)))
                     (Seq (Star (Atom AnyChar)) (OneOrMore (Atom (OneOf ''KQkq''))))"

text \<open>\<^verbatim>\<open>/^(-|[a-h][36])$/\<close>\<close>

definition enPassant_re :: regex where
  "enPassant_re = Alt (Atom (OneOf ''-''))
                      (Seq (Atom (OneOf ''abcdefgh'')) (Atom (OneOf ''36'')))"

text \<open>\<^verbatim>\<open>/^\d+$/\<close>\<close>

definition digits :: string where
  "digits = ''0123456789''"

definition number_re :: regex where
  "number_re = OneOrMore (Atom (OneOf digits))"

text \<open>The validator on a string argument (\<^verbatim>\<open>typeof fen === 'string'\<close>); the empty
  string is falsy and rejected first.\<close>

definition isValidFEN :: "string \<Rightarrow> bool" where
  "isValidFEN fen =
     (if fen = [] then False
      else let fenParts = split_on CHR '' '' fen in
        if length fenParts \<noteq> 6 then False
        else let position = fenParts ! 0; turn = fenParts ! 1; castling = fenParts ! 2;
                 enPassant = fenParts ! 3; halfMove = fenParts ! 4; fullMove = fenParts ! 5;
                 ranks = split_on CHR ''/'' position in
          if length ranks \<noteq> 8 then False
          else if \<not> ranks_ok ranks then False
          else if \<not> includes_str ''wb'' turn then False
          else if \<not> matches castling_re castling then False
          else if \<not> matches enPassant_re enPassant then False
          else if \<not> matches number_re halfMove then False
          else if \<not> matches number_re fullMove then False
          else True)"

definition STARTING_FEN :: string where
  "STARTING_FEN = ''rnbqkbnr/pppppppp/8/8/8/8/PPPPPPPP/RNBQKBNR w KQkq - 0 1''"

text \<open>
  The grammars of the four kinds of field as the specification words them, to compare
  the validator with: the side to move is one of two values; the castling field is
  \<^verbatim>\<open>-\<close> or letters from a four-symbol set; the en-passant field is \<^verbatim>\<open>-\<close> or a file
  and a rank, the rank being 3 or 6; a counter is a non-negative integer.
\<close>

definition spec_turn :: "string \<Rightarrow> bool" where
  "spec_turn t = (t = ''w'' \<or> t = ''b'')"

definition spec_castling :: "string \<Rightarrow> bool" where
  "spec_castling c = (c = ''-'' \<or> (c \<noteq> [] \<and> set c \<subseteq> set ''KQkq''))"

definition spec_enPassant :: "string \<Rightarrow> bool" where
  "spec_enPassant e =
     (e = ''-'' \<or> (length e = 2 \<and> e ! 0 \<in> set ''abcdefgh'' \<and> e ! 1 \<in> set ''36''))"

definition spec_counter :: "string \<Rightarrow> bool" where
  "spec_counter n = (n \<noteq> [] \<and> set n \<subseteq> set digits)"

section \<open>The server's position check\<close>

text \<open>\<^verbatim>\<open>/^([pnbrqkPNBRQK1-8]+\/){7}[pnbrqkPNBRQK1-8]+\s[bw]\s[kqKQ-]+\s[a-h1-8-]+\s\d+\s\d+$/\<close>\<close>

definition rank_chars :: string where
  "rank_chars = ''pnbrqkPNBRQK12345678''"

definition server_fen_re :: regex where
  "server_fen_re =
     Seq (Times 7 (Seq (OneOrMore (Atom (OneOf rank_chars))) (Atom (OneOf ''/''))))
    (Seq (OneOrMore (Atom (OneOf rank_chars)))
    (Seq (Atom (OneOf white_space))
    (Seq (Atom (OneOf ''bw''))
    (Seq (Atom (OneOf white_space))
    (Seq (OneOrMore (Atom (OneOf ''kqKQ-'')))
    (Seq (Atom (OneOf white_space))
    (Seq (OneOrMore (Atom (OneOf ''abcdefgh12345678-'')))
    (Seq (Atom (OneOf white_space))
    (Seq (OneOrMore (Atom (OneOf digits)))
    (Seq (Atom (OneOf white_space))
         (OneOrMore (Atom (OneOf digits)))))))))))))"

definition server_accepts :: "string \<Rightarrow> bool" where
  "server_accepts gameState = matches server_fen_re gameState"

section \<open>The page as the content script sees it\<close>

text \<open>
  An element is known to the script through \<^verbatim>\<open>getAttribute\<close> only, so it is its
  attribute map. The record holds what the selectors of the script find:
  \<^verbatim>\<open>wc-chess-board\<close>, \<^verbatim>\<open>chess-board\<close>, the \<^verbatim>\<open>.board-container\<close> inside
  \<^verbatim>\<open>.board-layout-main\<close>, the \<^verbatim>\<open>.board\<close> inside \<^verbatim>\<open>.analysis-board\<close> (the outer
  \<open>option\<close> is the container, the inner one the element inside it), the text of
  \<^verbatim>\<open>.move-list\<close>, and whether the remaining selectors match. \<open>game_getFen\<close> is
  \<open>None\<close> when \<^verbatim>\<open>window.game && window.game.getFen\<close> is falsy, and otherwise what a
  call of \<^verbatim>\<open>window.game.getFen()\<close> does.
\<close>

type_synonym element = "string \<rightharpoonup> string"

datatype getFen_result = GetFen_throws | GetFen_string string | GetFen_other

record page =
  pathname :: string
  wc_chess_board :: "element option"
  chess_board :: "element option"
  game_getFen :: "getFen_result option"
  board_container :: "element option option"
  analysis_board :: "element option option"
  board :: bool
  move_list :: "string option"
  game_controls :: bool
  player_row :: bool
  clock_component :: bool

text \<open>\<^verbatim>\<open>const v = el.getAttribute(a); if (v && isValidFEN(v)) return v\<close>\<close>

definition valid_attribute :: "element \<Rightarrow> string \<Rightarrow> string option" where
  "valid_attribute el a =
     (case el a of
        None \<Rightarrow> None
      | Some v \<Rightarrow> if v \<noteq> [] \<and> isValidFEN v then Some v else None)"

text \<open>The loop over \<^verbatim>\<open>possibleAttrs\<close>.\<close>

fun first_valid_attribute :: "element \<Rightarrow> string list \<Rightarrow> string option" where
  "first_valid_attribute el [] = None"
| "first_valid_attribute el (a # as) =
     (case valid_attribute el a of
        Some v \<Rightarrow> Some v
      | None \<Rightarrow> first_valid_attribute el as)"

definition possibleAttrs :: "string list" where
  "possibleAttrs = [''fen'', ''position'', ''data-fen'', ''data-position'']"

text \<open>The game object: a thrown exception is caught and ignored, and a value that is
  not a string fails \<^verbatim>\<open>isValidFEN\<close>.\<close>

definition from_game_object :: "page \<Rightarrow> string option" where
  "from_game_object doc =
     (case game_getFen doc of
        None \<Rightarrow> None
      | Some GetFen_throws \<Rightarrow> None
      | Some GetFen_other \<Rightarrow> None
      | Some (GetFen_string fen) \<Rightarrow> if isValidFEN fen then Some fen else None)"

definition method1 :: "page \<Rightarrow> string option" where
  "method1 doc =
     (case wc_chess_board doc of
        None \<Rightarrow> None
      | Some gameInterface \<Rightarrow> valid_attribute gameInterface ''position'')"

definition method2 :: "page \<Rightarrow> string option" where
  "method2 doc =
     (case chess_board doc of
        None \<Rightarrow> None
      | Some chessBoard \<Rightarrow>
          (case first_valid_attribute chessBoard possibleAttrs of
             Some v \<Rightarrow> Some v
           | None \<Rightarrow> from_game_object doc))"

definition method3 :: "page \<Rightarrow> string option" where
  "method3 doc =
     (case board_container doc of
        None \<Rightarrow> None
      | Some None \<Rightarrow> None
      | Some (Some boardContainer) \<Rightarrow> valid_attribute boardContainer ''data-board-position'')"

definition method4 :: "page \<Rightarrow> string option" where
  "method4 doc =
     (case analysis_board doc of
        None \<Rightarrow> None
      | Some None \<Rightarrow> None
      | Some (Some boardElement) \<Rightarrow> valid_attribute boardElement ''data-fen'')"

subsection \<open>The active-game heuristic (\<^verbatim>\<open>isInActiveGame\<close>)\<close>

text \<open>
  \<^verbatim>\<open>isInActiveGame\<close> is not an \<^verbatim>\<open>async\<close> function: it returns a boolean when an
  indicator is found or the retries are used up, and otherwise a Promise that a timer
  resolves, one second later, with the result of the next attempt. A Promise is an
  object and therefore truthy; \<^verbatim>\<open>await\<close> gives the boolean it finally resolves to.
  The page is a function of the attempt, \<open>pg k\<close> being the document that the \<open>k\<close>-th
  retry reads (\<open>pg 0\<close> is the document now).
\<close>

datatype active = Plain bool | Promise active

fun truthy :: "active \<Rightarrow> bool" where
  "truthy (Plain b) = b"
| "truthy (Promise r) = True"

fun await :: "active \<Rightarrow> bool" where
  "await (Plain b) = b"
| "await (Promise r) = await r"

definition gameIndicators :: "page \<Rightarrow> bool" where
  "gameIndicators doc =
     (includes_str (pathname doc) ''/game/''
      \<or> wc_chess_board doc \<noteq> None
      \<or> chess_board doc \<noteq> None
      \<or> board doc
      \<or> move_list doc \<noteq> None
      \<or> game_controls doc
      \<or> player_row doc
      \<or> clock_component doc)"

definition MAX_RETRIES :: nat where
  "MAX_RETRIES = 3"

function isInActiveGame :: "(nat \<Rightarrow> page) \<Rightarrow> nat \<Rightarrow> active" where
  "isInActiveGame pg retryCount =
     (let isInGame = gameIndicators (pg retryCount) in
      if \<not> isInGame \<and> retryCount < MAX_RETRIES
      then Promise (isInActiveGame pg (retryCount + 1))
      else Plain isInGame)"
  by pat_completeness auto
termination
  by (relation "measure (\<lambda>(pg, retryCount). MAX_RETRIES - retryCount)") auto

declare isInActiveGame.simps [simp del]

subsection \<open>\<^verbatim>\<open>getCurrentFEN\<close>\<close>

text \<open>The four methods in order, then \<^verbatim>\<open>if (isInActiveGame()) return STARTING_FEN\<close>,
  which tests the value the heuristic returns without awaiting it; \<open>None\<close> is
  \<^verbatim>\<open>null\<close>.\<close>

definition getCurrentFEN :: "(nat \<Rightarrow> page) \<Rightarrow> string option" where
  "getCurrentFEN pg =
     (case method1 (pg 0) of Some v \<Rightarrow> Some v | None \<Rightarrow>
      case method2 (pg 0) of Some v \<Rightarrow> Some v | None \<Rightarrow>
      case method3 (pg 0) of Some v \<Rightarrow> Some v | None \<Rightarrow>
      case method4 (pg 0) of Some v \<Rightarrow> Some v | None \<Rightarrow>
      if truthy (isInActiveGame pg 0) then Some STARTING_FEN else None)"

text \<open>A page on which no selector of the script matches.\<close>

definition blank_page :: page where
  "blank_page =
     \<lparr>pathname = ''/home'', wc_chess_board = None, chess_board = None, game_getFen = None,
      board_container = None, analysis_board = None, board = False, move_list = None,
      game_controls = False, player_row = False, clock_component = False\<rparr>"

section \<open>The content script: watcher and suggestion requests\<close>

subsection \<open>\<^verbatim>\<open>formatGameState\<close>\<close>

record game_state =
  fullGame :: string
  gs_moveCount :: nat
  lastMove :: string
  gs_isWhiteTurn :: bool

text \<open>
  \<^verbatim>\<open>text.split(/\d+\./)\<close>: a separator is a maximal run of digits followed by a
  dot (a shorter run is followed by a digit, not by a dot); where none starts, the
  character belongs to the current piece. \<open>cur\<close> is the current piece, reversed.
\<close>

function split_move_numbers :: "string \<Rightarrow> string \<Rightarrow> string list" where
  "split_move_numbers [] cur = [rev cur]"
| "split_move_numbers (c # cs) cur =
     (if c \<in> set digits
      then (case dropWhile (\<lambda>d. d \<in> set digits) cs of
              [] \<Rightarrow> split_move_numbers cs (c # cur)
            | d # ds \<Rightarrow> if d = CHR ''.'' then rev cur # split_move_numbers ds []
                       else split_move_numbers cs (c # cur))
      else split_move_numbers cs (c # cur))"
  by pat_completeness auto
termination
proof (relation "measure (\<lambda>(s, cur). length s)", goal_cases)
  case (3 c cs cur d ds)
  have "length (dropWhile (\<lambda>d. d \<in> set digits) cs) \<le> length cs"
    by (rule length_dropWhile_le)
  with 3 show ?case by simp
qed auto

definition formatGameState :: "string \<Rightarrow> game_state" where
  "formatGameState moveText =
     (let moves = filter (\<lambda>m. trim m \<noteq> []) (split_move_numbers (trim moveText) [])
      in \<lparr>fullGame = trim moveText,
          gs_moveCount = length moves,
          lastMove = (if moves = [] then ''start'' else trim (last moves)),
          gs_isWhiteTurn = (length (split_on CHR ''.'' moveText) mod 2 = 0)\<rparr>)"

subsection \<open>State of the script\<close>

datatype message = SUGGESTION string int | ERROR string

text \<open>
  The script's variables, the messages passed to \<^verbatim>\<open>chrome.runtime.sendMessage\<close> so far,
  and the two places where an invocation of \<^verbatim>\<open>getAnalysis\<close> is suspended: \<open>awaiting\<close>
  holds the invocations at \<^verbatim>\<open>await isInActiveGame()\<close> with the value awaited, and
  \<open>in_flight\<close> the \<^verbatim>\<open>fetch\<close> calls issued and not yet settled (position and last move
  of the body).
\<close>

record client =
  lastMoves :: "string option"
  moveCount :: nat
  isWhiteTurn :: bool
  isAnalyzing :: bool
  consecutiveErrors :: nat
  isBackendConnected :: bool
  sent :: "message list"
  awaiting :: "(game_state \<times> active) list"
  in_flight :: "(string \<times> string) list"

definition initial :: client where
  "initial =
     \<lparr>lastMoves = None, moveCount = 0, isWhiteTurn = True, isAnalyzing = False,
      consecutiveErrors = 0, isBackendConnected = False, sent = [], awaiting = [],
      in_flight = []\<rparr>"

definition MAX_CONSECUTIVE_ERRORS :: nat where
  "MAX_CONSECUTIVE_ERRORS = 3"

definition connection_error :: string where
  "connection_error =
     ''Cannot connect to analysis server. Please check your internet connection.''"

subsection \<open>\<^verbatim>\<open>getAnalysis\<close>\<close>

text \<open>The \<^verbatim>\<open>finally\<close> block.\<close>

definition finally_block :: "client \<Rightarrow> client" where
  "finally_block s = s\<lparr>isAnalyzing := False\<rparr>"

text \<open>The \<^verbatim>\<open>catch\<close> block for an error with the given message, followed by the
  \<^verbatim>\<open>finally\<close> block.\<close>

definition catch_block :: "string \<Rightarrow> client \<Rightarrow> client" where
  "catch_block msg s =
     (let failed = includes_str msg ''Failed to fetch'';
          s1 = (if failed then s\<lparr>isBackendConnected := False\<rparr> else s);
          msg1 = (if failed then connection_error else msg);
          s2 = s1\<lparr>consecutiveErrors := consecutiveErrors s1 + 1\<rparr>;
          errorMessage =
            (if consecutiveErrors s2 \<ge> MAX_CONSECUTIVE_ERRORS
             then msg1 @ '' Try refreshing the page if this persists.''
             else msg1)
      in finally_block (s2\<lparr>sent := sent s2 @ [ERROR errorMessage]\<rparr>))"

text \<open>The synchronous start of an invocation: the in-flight guard, then the call of
  \<^verbatim>\<open>isInActiveGame()\<close> whose value is awaited.\<close>

definition getAnalysis :: "(nat \<Rightarrow> page) \<Rightarrow> game_state \<Rightarrow> client \<Rightarrow> client" where
  "getAnalysis pg gameState s =
     (if isAnalyzing s then s
      else s\<lparr>awaiting := awaiting s @ [(gameState, isInActiveGame pg 0)]\<rparr>)"

text \<open>The invocation from the point where \<^verbatim>\<open>await isInActiveGame()\<close> has given
  \<open>isInGame\<close>, up to the \<^verbatim>\<open>fetch\<close> call or to the end of the invocation.\<close>

definition getAnalysis_resume :: "(nat \<Rightarrow> page) \<Rightarrow> game_state \<Rightarrow> bool \<Rightarrow> client \<Rightarrow> client" where
  "getAnalysis_resume pg gameState isInGame s =
     (if \<not> isInGame
      then finally_block (s\<lparr>sent := sent s @ [ERROR ''Please start or join a game first.'']\<rparr>)
      else if \<not> isBackendConnected s
      then finally_block (s\<lparr>sent := sent s @ [ERROR connection_error]\<rparr>)
      else let s1 = s\<lparr>isAnalyzing := True\<rparr> in
        (case getCurrentFEN pg of
           None \<Rightarrow>
             catch_block
               ''Could not detect the board position. Please make sure you are in an active game.''
               s1
         | Some fen \<Rightarrow> s1\<lparr>in_flight := in_flight s1 @ [(fen, lastMove gameState)]\<rparr>))"

text \<open>
  How a \<^verbatim>\<open>fetch\<close> settles, with the body already read: the request or the reading of
  the body failed with a message; the response is not \<^verbatim>\<open>ok\<close> (its status and its
  \<^verbatim>\<open>error\<close> field when that is truthy); or it is \<^verbatim>\<open>ok\<close> (its \<^verbatim>\<open>suggestion\<close> and
  \<^verbatim>\<open>remainingRequests\<close>).
\<close>

datatype fetch_outcome =
    Fetch_failed string
  | Not_ok nat "string option"
  | Ok_data string int

definition getAnalysis_finish :: "fetch_outcome \<Rightarrow> client \<Rightarrow> client" where
  "getAnalysis_finish outcome s =
     (case outcome of
        Fetch_failed msg \<Rightarrow> catch_block msg s
      | Not_ok status err \<Rightarrow>
          if status = 429
          then catch_block ''Rate limit reached. Please wait before requesting more moves.'' s
          else catch_block (case err of Some e \<Rightarrow> e | None \<Rightarrow> ''Analysis service unavailable'') s
      | Ok_data suggestion remainingRequests \<Rightarrow>
          finally_block
            (s\<lparr>consecutiveErrors := 0, isBackendConnected := True,
               sent := sent s @ [SUGGESTION suggestion remainingRequests]\<rparr>))"

subsection \<open>\<^verbatim>\<open>analyzeMoves\<close> and \<^verbatim>\<open>checkBackendConnection\<close>\<close>

definition analyzeMoves :: "(nat \<Rightarrow> page) \<Rightarrow> client \<Rightarrow> client" where
  "analyzeMoves pg s =
     (case move_list (pg 0) of
        None \<Rightarrow> s
      | Some textContent \<Rightarrow>
          let moves = trim textContent in
          if Some moves \<noteq> lastMoves s
          then let s1 = s\<lparr>moveCount := moveCount s + 1\<rparr>;
                   gameState = formatGameState moves;
                   s2 = getAnalysis pg gameState s1
               in s2\<lparr>lastMoves := Some moves, isWhiteTurn := gs_isWhiteTurn gameState\<rparr>
          else s)"

definition checkBackendConnection :: "bool \<Rightarrow> client \<Rightarrow> client" where
  "checkBackendConnection ok s =
     (if ok then s\<lparr>isBackendConnected := True\<rparr>
      else s\<lparr>isBackendConnected := False, sent := sent s @ [ERROR connection_error]\<rparr>)"

subsection \<open>The event loop\<close>

text \<open>
  The script runs on one thread: a callback runs to its end, and the continuations
  that became ready during it (an \<^verbatim>\<open>await\<close> of a value that is not a pending Promise)
  run right after it, before any other callback. \<open>settle\<close> runs these continuations
  in the order of their suspension and leaves the invocations whose Promise is still
  pending where they are.
\<close>

fun settle_one :: "(nat \<Rightarrow> page) \<Rightarrow> client \<Rightarrow> game_state \<times> active \<Rightarrow> client" where
  "settle_one pg s (gameState, Plain isInGame) = getAnalysis_resume pg gameState isInGame s"
| "settle_one pg s (gameState, Promise r) = s\<lparr>awaiting := awaiting s @ [(gameState, Promise r)]\<rparr>"

definition settle :: "(nat \<Rightarrow> page) \<Rightarrow> client \<Rightarrow> client" where
  "settle pg s = foldl (settle_one pg) (s\<lparr>awaiting := []\<rparr>) (awaiting s)"

text \<open>
  The events: the mutation observer's callback with \<open>k\<close> records of type
  \<^verbatim>\<open>childList\<close> or \<^verbatim>\<open>characterData\<close>, each of which calls \<^verbatim>\<open>analyzeMoves\<close> on the same
  document (\<^verbatim>\<open>startObserving\<close> calls it once, as \<open>k = 1\<close>); the retry timer of the
  \<open>i\<close>-th suspended invocation; the settling of the \<open>i\<close>-th pending \<^verbatim>\<open>fetch\<close>; and a
  health probe with its result.
\<close>

datatype event =
    Observed "nat \<Rightarrow> page" nat
  | RetryTimer nat "nat \<Rightarrow> page"
  | FetchSettled nat fetch_outcome
  | HealthChecked bool

fun step :: "client \<Rightarrow> event \<Rightarrow> client" where
  "step s (Observed pg k) = settle pg ((analyzeMoves pg ^^ k) s)"
| "step s (RetryTimer i pg) =
     (if i < length (awaiting s)
      then (case awaiting s ! i of
              (gameState, Promise r) \<Rightarrow> settle pg (s\<lparr>awaiting := (awaiting s)[i := (gameState, r)]\<rparr>)
            | (gameState, Plain b) \<Rightarrow> s)
      else s)"
| "step s (FetchSettled i outcome) =
     (if i < length (in_flight s)
      then getAnalysis_finish outcome
             (s\<lparr>in_flight := take i (in_flight s) @ drop (Suc i) (in_flight s)\<rparr>)
      else s)"
| "step s (HealthChecked ok) = checkBackendConnection ok s"

definition run :: "event list \<Rightarrow> client" where
  "run events = foldl step initial events"

text \<open>The state between two events when the guard works: no invocation is
  suspended before the guard is set, and the flag is set exactly while one request
  is pending.\<close>

definition single_flight :: "client \<Rightarrow> bool" where
  "single_flight s =
     (awaiting s = []
      \<and> ((in_flight s = [] \<and> \<not> isAnalyzing s) \<or> (length (in_flight s) = 1 \<and> isAnalyzing s)))"

text \<open>A page with a move list showing the given text.\<close>

definition game_page :: "string \<Rightarrow> page" where
  "game_page moves = blank_page\<lparr>pathname := ''/game/live/1'', move_list := Some moves\<rparr>"

section \<open>The server\<close>

subsection \<open>The quota store\<close>

text \<open>
  Modelled from the spec: the rate limiter is the \<^verbatim>\<open>RateLimiterMemory\<close> class of the
  package \<^verbatim>\<open>rate-limiter-flexible\<close>, which is not under \<^verbatim>\<open>src/\<close>. The spec describes a
  per-caller counter with a fixed window: the counter resets after the window elapses,
  consumption is monotonic within the window, a request beyond the cap is rejected
  with a hint computed from the window's reset time, and the reading operation
  consumes nothing. Times are in milliseconds. A record whose window has elapsed is
  gone.
\<close>

record quota =
  consumedPoints :: nat
  expiresAt :: nat

type_synonym limiter = "string \<rightharpoonup> quota"

text \<open>\<^verbatim>\<open>points: isProduction ? 10 : 100\<close> and \<^verbatim>\<open>duration: 86400\<close> (seconds).\<close>

definition points :: "bool \<Rightarrow> nat" where
  "points isProduction = (if isProduction then 10 else 100)"

definition duration_ms :: nat where
  "duration_ms = 86400 * 1000"

text \<open>Modelled from the spec: the reading operation of the rate limiter
  (\<^verbatim>\<open>rateLimiter.get\<close>), which reports the caller's record in the current window, if
  there is one, and consumes nothing.\<close>

definition limiter_get :: "nat \<Rightarrow> string \<Rightarrow> limiter \<Rightarrow> quota option" where
  "limiter_get now key store =
     (case store key of
        None \<Rightarrow> None
      | Some q \<Rightarrow> if now < expiresAt q then Some q else None)"

datatype consumed = Resolved | Rejected int

text \<open>Modelled from the spec: the consuming operation of the rate limiter
  (\<^verbatim>\<open>rateLimiter.consume\<close>), which counts the request in the caller's window (a new
  window when there is none) and then resolves, or rejects when the counter exceeds
  the cap, with the time left until the window's reset as \<^verbatim>\<open>msBeforeNext\<close>.\<close>

definition limiter_consume :: "bool \<Rightarrow> nat \<Rightarrow> string \<Rightarrow> limiter \<Rightarrow> consumed \<times> limiter" where
  "limiter_consume isProduction now key store =
     (let q = (case limiter_get now key store of
                 None \<Rightarrow> \<lparr>consumedPoints = 1, expiresAt = now + duration_ms\<rparr>
               | Some q0 \<Rightarrow> q0\<lparr>consumedPoints := consumedPoints q0 + 1\<rparr>);
          msBeforeNext = int (expiresAt q) - int now
      in (if consumedPoints q > points isProduction then Rejected msBeforeNext else Resolved,
          store(key \<mapsto> q)))"

text \<open>The points a caller has consumed in the current window, and whether the cap
  is reached.\<close>

definition consumed_by :: "nat \<Rightarrow> string \<Rightarrow> limiter \<Rightarrow> nat" where
  "consumed_by now key store =
     (case limiter_get now key store of None \<Rightarrow> 0 | Some q \<Rightarrow> consumedPoints q)"

definition exhausted :: "bool \<Rightarrow> nat \<Rightarrow> string \<Rightarrow> limiter \<Rightarrow> bool" where
  "exhausted isProduction now key store = (consumed_by now key store \<ge> points isProduction)"

subsection \<open>Requests and responses\<close>

text \<open>A field of the JSON body, as far as the handler distinguishes values: their
  truthiness and whether they are strings.\<close>

datatype jsvalue = JUndefined | JNull | JBool bool | JNum real | JStr string | JObject

fun truthy_value :: "jsvalue \<Rightarrow> bool" where
  "truthy_value JUndefined = False"
| "truthy_value JNull = False"
| "truthy_value (JBool b) = b"
| "truthy_value (JNum x) = (x \<noteq> 0)"
| "truthy_value (JStr s) = (s \<noteq> [])"
| "truthy_value JObject = True"

record request =
  x_user_id :: "string option"
  ip :: string
  gameState :: jsvalue
  currentMove :: jsvalue
  playerColor :: jsvalue

datatype response =
    Ok200 string int int
  | BadRequest400 string
  | TooManyRequests429 string real
  | ServerError500 string string

text \<open>
  The oracle is \<^verbatim>\<open>openai.chat.completions.create\<close>. Its two messages are fixed
  templates filled with the position, the last move and the player's colour, so a call
  is recorded by these three values; it gives the content of the first choice or
  fails with a message.
\<close>

record oracle_call =
  position :: string
  move :: jsvalue
  colour :: jsvalue

datatype oracle_reply = Completion string | Oracle_error string

text \<open>\<^verbatim>\<open>req.headers['x-user-id'] || req.ip\<close>\<close>

definition userId :: "request \<Rightarrow> string" where
  "userId req =
     (case x_user_id req of
        None \<Rightarrow> ip req
      | Some h \<Rightarrow> if h \<noteq> [] then h else ip req)"

subsection \<open>\<^verbatim>\<open>getRemainingRequests\<close>\<close>

definition getRemainingRequests :: "nat \<Rightarrow> string \<Rightarrow> limiter \<Rightarrow> int" where
  "getRemainingRequests now key store =
     (case limiter_get now key store of
        None \<Rightarrow> 10
      | Some rateLimiterRes \<Rightarrow> max 0 (10 - int (consumedPoints rateLimiterRes)))"

subsection \<open>\<^verbatim>\<open>POST /suggest-move\<close>\<close>

text \<open>The \<^verbatim>\<open>catch\<close> block of the handler.\<close>

definition failure :: "bool \<Rightarrow> string \<Rightarrow> response" where
  "failure isProduction msg =
     ServerError500 ''Failed to generate move suggestion''
       (if isProduction then ''Internal server error'' else msg)"

text \<open>
  The handler proper, after the rate-limit middleware has called \<^verbatim>\<open>next()\<close>. It gives
  the response and the oracle calls made. \<open>started\<close> and \<open>finished\<close> are the clock
  when the handler starts and when it builds the response. A truthy \<^verbatim>\<open>gameState\<close> that
  is not a string has no \<^verbatim>\<open>match\<close> method, and the \<^verbatim>\<open>TypeError\<close> is caught.
\<close>

definition handler ::
  "bool \<Rightarrow> (oracle_call \<Rightarrow> oracle_reply) \<Rightarrow> nat \<Rightarrow> nat \<Rightarrow> request \<Rightarrow> limiter
     \<Rightarrow> response \<times> oracle_call list" where
  "handler isProduction oracle started finished req store =
     (if \<not> truthy_value (gameState req) \<or> \<not> truthy_value (currentMove req)
      then (BadRequest400 ''Missing required game information'', [])
      else (case gameState req of
              JStr fen \<Rightarrow>
                if \<not> server_accepts fen
                then (BadRequest400 ''Invalid chess position format'', [])
                else let call = \<lparr>position = fen, move = currentMove req,
                                  colour = playerColor req\<rparr>
                     in (case oracle call of
                           Oracle_error msg \<Rightarrow> (failure isProduction msg, [call])
                         | Completion content \<Rightarrow>
                             (Ok200 (trim content)
                                (getRemainingRequests finished (ip req) store)
                                (int finished - int started),
                              [call]))
            | _ \<Rightarrow> (failure isProduction ''gameState.match is not a function'', [])))"

text \<open>The route: \<^verbatim>\<open>rateLimitMiddleware\<close> first, and the handler only when
  \<^verbatim>\<open>consume\<close> resolves. The result is the response, the oracle calls made and the
  quota store after the request.\<close>

definition suggest_move ::
  "bool \<Rightarrow> (oracle_call \<Rightarrow> oracle_reply) \<Rightarrow> nat \<Rightarrow> nat \<Rightarrow> request \<Rightarrow> limiter
     \<Rightarrow> response \<times> oracle_call list \<times> limiter" where
  "suggest_move isProduction oracle started finished req store =
     (case limiter_consume isProduction started (userId req) store of
        (Rejected msBeforeNext, store') \<Rightarrow>
          (TooManyRequests429 ''Too many requests. Please try again later.''
             (real_of_int msBeforeNext / 1000), [], store')
      | (Resolved, store') \<Rightarrow>
          (case handler isProduction oracle started finished req store' of
             (res, calls) \<Rightarrow> (res, calls, store')))"

text \<open>An oracle that always answers, and a request without \<^verbatim>\<open>gameState\<close>.\<close>

definition knight_oracle :: "oracle_call \<Rightarrow> oracle_reply" where
  "knight_oracle call = Completion ''White Knight --> f3''"

definition incomplete_request :: request where
  "incomplete_request =
     \<lparr>x_user_id = None, ip = ''10.0.0.1'', gameState = JUndefined,
      currentMove = JStr ''start'', playerColor = JUndefined\<rparr>"

definition start_request :: request where
  "start_request =
     \<lparr>x_user_id = None, ip = ''10.0.0.1'', gameState = JStr STARTING_FEN,
      currentMove = JStr ''start'', playerColor = JUndefined\<rparr>"

text \<open>A quota store in which the caller at 10.0.0.1 has used the ten points of the
  production cap, in a window that ends at time 1000.\<close>

definition spent_store :: limiter where
  "spent_store = [''10.0.0.1'' \<mapsto> \<lparr>consumedPoints = 10, expiresAt = 1000\<rparr>]"

section \<open>Properties of the string primitives and of the regular expressions\<close>

lemma startsWith_single: "startsWith s [c] = (\<exists>t. s = c # t)"
  by (cases s) auto

lemma includes_single: "includes_str s [c] = (c \<in> set s)"
  by (induction s) (auto simp: startsWith_single)

lemma split_on_none: "sep \<notin> set xs \<Longrightarrow> split_on sep xs = [xs]"
  by (induction xs) auto

lemma split_on_app: "sep \<notin> set xs \<Longrightarrow> split_on sep (xs @ sep # ys) = xs # split_on sep ys"
  by (induction xs) auto

lemma lang_seq: "lang (seq r s) = lang (Seq r s)"
  by (auto simp: seq_def)

lemma lang_alt: "lang (alt r s) = lang (Alt r s)"
  by (auto simp: alt_def)

lemma star_cons:
  "c # w \<in> star A \<longleftrightarrow> (\<exists>u v. w = u @ v \<and> c # u \<in> A \<and> v \<in> star A)"
proof
  assume "c # w \<in> star A"
  then show "\<exists>u v. w = u @ v \<and> c # u \<in> A \<and> v \<in> star A"
  proof (induction "c # w" rule: star.induct)
    case (star_app u v)
    show ?case
    proof (cases u)
      case Nil
      with star_app show ?thesis by simp
    next
      case (Cons d u')
      with star_app show ?thesis by auto
    qed
  qed
next
  assume "\<exists>u v. w = u @ v \<and> c # u \<in> A \<and> v \<in> star A"
  then obtain u v where "w = u @ v" "c # u \<in> A" "v \<in> star A" by blast
  then show "c # w \<in> star A"
    using star.star_app [of "c # u" A v] by simp
qed

lemma nullable_lang: "nullable r \<longleftrightarrow> [] \<in> lang r"
  by (induction r) (auto intro: star.star_nil)

lemma deriv_lang: "w \<in> lang (deriv c r) \<longleftrightarrow> c # w \<in> lang r"
proof (induction r arbitrary: w)
  case (Seq r s)
  show ?case
    by (auto simp: lang_seq lang_alt Seq nullable_lang Cons_eq_append_conv)
next
  case (Star r)
  show ?case
    by (auto simp: lang_seq Star star_cons)
qed (auto simp: lang_alt)

text \<open>The matcher decides membership in the language of the expression.\<close>

lemma matches_lang: "matches r s \<longleftrightarrow> s \<in> lang r"
  by (induction s arbitrary: r) (auto simp: nullable_lang deriv_lang)

lemma star_atoms: "w \<in> star (lang (Atom (OneOf cs))) \<longleftrightarrow> set w \<subseteq> set cs"
proof
  assume "w \<in> star (lang (Atom (OneOf cs)))"
  then show "set w \<subseteq> set cs"
    by (induction rule: star.induct) auto
next
  assume "set w \<subseteq> set cs"
  then show "w \<in> star (lang (Atom (OneOf cs)))"
  proof (induction w)
    case Nil
    show ?case by (rule star.star_nil)
  next
    case (Cons c w)
    then have "[c] \<in> lang (Atom (OneOf cs))" "w \<in> star (lang (Atom (OneOf cs)))" by auto
    then have "[c] @ w \<in> star (lang (Atom (OneOf cs)))" by (rule star.star_app)
    then show ?case by simp
  qed
qed

lemma lang_Star_OneOf: "w \<in> lang (Star (Atom (OneOf cs))) \<longleftrightarrow> set w \<subseteq> set cs"
  using star_atoms by simp

lemma lang_Atom_Seq:
  "w \<in> lang (Seq (Atom a) r) \<longleftrightarrow> (\<exists>c v. w = c # v \<and> in_cls a c \<and> v \<in> lang r)"
proof
  assume "w \<in> lang (Seq (Atom a) r)"
  then obtain u v where "w = u @ v" "u \<in> lang (Atom a)" "v \<in> lang r" by auto
  moreover from this obtain c where "u = [c]" "in_cls a c" by auto
  ultimately show "\<exists>c v. w = c # v \<and> in_cls a c \<and> v \<in> lang r" by simp
next
  assume "\<exists>c v. w = c # v \<and> in_cls a c \<and> v \<in> lang r"
  then obtain c v where "w = [c] @ v" "[c] \<in> lang (Atom a)" "v \<in> lang r" by auto
  then show "w \<in> lang (Seq (Atom a) r)" unfolding lang.simps(4) by blast
qed

lemma lang_OneOrMore_OneOf:
  "w \<in> lang (OneOrMore (Atom (OneOf cs))) \<longleftrightarrow> w \<noteq> [] \<and> set w \<subseteq> set cs"
proof -
  have "w \<in> lang (OneOrMore (Atom (OneOf cs))) \<longleftrightarrow>
        (\<exists>c v. w = c # v \<and> in_cls (OneOf cs) c \<and> v \<in> lang (Star (Atom (OneOf cs))))"
    unfolding OneOrMore_def by (rule lang_Atom_Seq)
  also have "\<dots> \<longleftrightarrow> (\<exists>c v. w = c # v \<and> c \<in> set cs \<and> set v \<subseteq> set cs)"
    by (simp only: lang_Star_OneOf in_cls.simps)
  also have "\<dots> \<longleftrightarrow> w \<noteq> [] \<and> set w \<subseteq> set cs"
    by (cases w) auto
  finally show ?thesis .
qed

lemma lang_SeqD:
  "w \<in> lang (Seq r s) \<Longrightarrow> \<exists>u v. w = u @ v \<and> u \<in> lang r \<and> v \<in> lang s"
  by auto

lemma lang_OneOf_SeqD:
  "w \<in> lang (Seq (Atom (OneOf cs)) r) \<Longrightarrow> \<exists>c v. w = c # v \<and> c \<in> set cs \<and> v \<in> lang r"
  unfolding lang_Atom_Seq by simp

lemma lang_field_ws:
  assumes "w \<in> lang (Seq (OneOrMore (Atom (OneOf cs))) (Seq (Atom (OneOf white_space)) r))"
  shows "\<exists>f c v. w = f @ c # v \<and> f \<noteq> [] \<and> set f \<subseteq> set cs \<and> c \<in> set white_space \<and> v \<in> lang r"
proof -
  from assms obtain f x where w: "w = f @ x" and f: "f \<in> lang (OneOrMore (Atom (OneOf cs)))"
    and x: "x \<in> lang (Seq (Atom (OneOf white_space)) r)"
    using lang_SeqD by blast
  from x obtain c v where "x = c # v" "c \<in> set white_space" "v \<in> lang r"
    using lang_OneOf_SeqD by blast
  with w f show ?thesis
    unfolding lang_OneOrMore_OneOf by blast
qed

section \<open>The two position checks compared\<close>

lemma slash_not_rank: "CHR ''/'' \<notin> set rank_chars"
  by (simp add: rank_chars_def)

lemma space_not_rank: "CHR '' '' \<notin> set rank_chars"
  by (simp add: rank_chars_def)

text \<open>The counted group of the server's expression: \<open>n\<close> ranks, each closed by a
  slash, followed by a slash-free rest make \<open>n + 1\<close> slash-separated fields.\<close>

lemma times_ranks:
  assumes "u \<in> lang (Times n (Seq (OneOrMore (Atom (OneOf rank_chars))) (Atom (OneOf ''/''))))"
    and "CHR ''/'' \<notin> set y"
  shows "length (split_on CHR ''/'' (u @ y)) = Suc n \<and> CHR '' '' \<notin> set u"
  using assms
proof (induction n arbitrary: u)
  case 0
  then show ?case by (simp add: split_on_none)
next
  case (Suc n)
  from Suc.prems(1) obtain a u' where u: "u = a @ u'"
    and a: "a \<in> lang (Seq (OneOrMore (Atom (OneOf rank_chars))) (Atom (OneOf ''/'')))"
    and u': "u' \<in> lang (Times n (Seq (OneOrMore (Atom (OneOf rank_chars))) (Atom (OneOf ''/''))))"
    by auto
  from a obtain rk where rk: "a = rk @ [CHR ''/'']" "rk \<in> lang (OneOrMore (Atom (OneOf rank_chars)))"
    by auto
  then have sub: "set rk \<subseteq> set rank_chars" by (simp add: lang_OneOrMore_OneOf)
  with slash_not_rank space_not_rank have no: "CHR ''/'' \<notin> set rk" "CHR '' '' \<notin> set rk" by auto
  from Suc.IH [OF u' Suc.prems(2)]
  have ih: "length (split_on CHR ''/'' (u' @ y)) = Suc n" "CHR '' '' \<notin> set u'" by auto
  have "split_on CHR ''/'' (u @ y) = rk # split_on CHR ''/'' (u' @ y)"
    using split_on_app [OF no(1), of "u' @ y"] by (simp add: u rk(1))
  with ih no show ?case by (simp add: u rk(1))
qed

lemma ranks_ok_iff: "ranks_ok rs \<longleftrightarrow> (\<forall>r\<in>set rs. rank_sum r 0 = Some 8)"
  by (induction rs) (auto split: option.splits)

text \<open>A string the server accepts whose separators are spaces splits into six
  fields, of which the first has eight ranks, the second is one of \<open>b\<close> and \<open>w\<close>, and
  the last two are numbers.\<close>

lemma server_fields:
  assumes acc: "server_accepts s"
    and sp: "\<forall>c\<in>set s. c \<in> set white_space \<longrightarrow> c = CHR '' ''"
  shows "\<exists>p t c e h f.
           split_on CHR '' '' s = [p, [t], c, e, h, f] \<and> s \<noteq> [] \<and>
           length (split_on CHR ''/'' p) = 8 \<and> t \<in> set ''bw'' \<and>
           matches number_re h \<and> matches number_re f"
proof -
  let ?X = "Seq (OneOrMore (Atom (OneOf rank_chars))) (Atom (OneOf ''/''))"
  from acc have "s \<in> lang server_fen_re"
    by (simp add: server_accepts_def matches_lang)
  then obtain u x1 where s1: "s = u @ x1" and u: "u \<in> lang (Times 7 ?X)"
    and x1: "x1 \<in> lang (Seq (OneOrMore (Atom (OneOf rank_chars)))
      (Seq (Atom (OneOf white_space))
      (Seq (Atom (OneOf ''bw''))
      (Seq (Atom (OneOf white_space))
      (Seq (OneOrMore (Atom (OneOf ''kqKQ-'')))
      (Seq (Atom (OneOf white_space))
      (Seq (OneOrMore (Atom (OneOf ''abcdefgh12345678-'')))
      (Seq (Atom (OneOf white_space))
      (Seq (OneOrMore (Atom (OneOf digits)))
      (Seq (Atom (OneOf white_space))
           (OneOrMore (Atom (OneOf digits)))))))))))))"
    unfolding server_fen_re_def using lang_SeqD by blast
  from lang_field_ws [OF x1] obtain r8 w1 x2 where x1': "x1 = r8 @ w1 # x2"
    and r8: "r8 \<noteq> []" "set r8 \<subseteq> set rank_chars" and w1: "w1 \<in> set white_space"
    and x2: "x2 \<in> lang (Seq (Atom (OneOf ''bw''))
      (Seq (Atom (OneOf white_space))
      (Seq (OneOrMore (Atom (OneOf ''kqKQ-'')))
      (Seq (Atom (OneOf white_space))
      (Seq (OneOrMore (Atom (OneOf ''abcdefgh12345678-'')))
      (Seq (Atom (OneOf white_space))
      (Seq (OneOrMore (Atom (OneOf digits)))
      (Seq (Atom (OneOf white_space))
           (OneOrMore (Atom (OneOf digits)))))))))))"
    by blast
  from x2 obtain t x2' where x2e: "x2 = t # x2'" and t: "t \<in> set ''bw''"
    and x2': "x2' \<in> lang (Seq (Atom (OneOf white_space))
      (Seq (OneOrMore (Atom (OneOf ''kqKQ-'')))
      (Seq (Atom (OneOf white_space))
      (Seq (OneOrMore (Atom (OneOf ''abcdefgh12345678-'')))
      (Seq (Atom (OneOf white_space))
      (Seq (OneOrMore (Atom (OneOf digits)))
      (Seq (Atom (OneOf white_space))
           (OneOrMore (Atom (OneOf digits))))))))))"
    using lang_OneOf_SeqD by blast
  from x2' obtain w2 x3 where x3e: "x2' = w2 # x3" and w2: "w2 \<in> set white_space"
    and x3: "x3 \<in> lang (Seq (OneOrMore (Atom (OneOf ''kqKQ-'')))
      (Seq (Atom (OneOf white_space))
      (Seq (OneOrMore (Atom (OneOf ''abcdefgh12345678-'')))
      (Seq (Atom (OneOf white_space))
      (Seq (OneOrMore (Atom (OneOf digits)))
      (Seq (Atom (OneOf white_space))
           (OneOrMore (Atom (OneOf digits)))))))))"
    using lang_OneOf_SeqD by blast
  from lang_field_ws [OF x3] obtain c w3 x4 where x4e: "x3 = c @ w3 # x4"
    and c: "c \<noteq> []" "set c \<subseteq> set ''kqKQ-''" and w3: "w3 \<in> set white_space"
    and x4: "x4 \<in> lang (Seq (OneOrMore (Atom (OneOf ''abcdefgh12345678-'')))
      (Seq (Atom (OneOf white_space))
      (Seq (OneOrMore (Atom (OneOf digits)))
      (Seq (Atom (OneOf white_space))
           (OneOrMore (Atom (OneOf digits)))))))"
    by blast
  from lang_field_ws [OF x4] obtain e w4 x5 where x5e: "x4 = e @ w4 # x5"
    and e: "e \<noteq> []" "set e \<subseteq> set ''abcdefgh12345678-''" and w4: "w4 \<in> set white_space"
    and x5: "x5 \<in> lang (Seq (OneOrMore (Atom (OneOf digits)))
      (Seq (Atom (OneOf white_space))
           (OneOrMore (Atom (OneOf digits)))))"
    by blast
  from lang_field_ws [OF x5] obtain h w5 f where x6e: "x5 = h @ w5 # f"
    and h: "h \<noteq> []" "set h \<subseteq> set digits" and w5: "w5 \<in> set white_space"
    and f: "f \<in> lang (OneOrMore (Atom (OneOf digits)))"
    by blast
  have shape: "s = (u @ r8) @ w1 # t # w2 # c @ w3 # e @ w4 # h @ w5 # f"
    by (simp add: s1 x1' x2e x3e x4e x5e x6e)
  have ws: "w1 = CHR '' ''" "w2 = CHR '' ''" "w3 = CHR '' ''" "w4 = CHR '' ''" "w5 = CHR '' ''"
    using sp w1 w2 w3 w4 w5 unfolding shape by auto
  have slash8: "CHR ''/'' \<notin> set r8" using r8(2) slash_not_rank by auto
  from times_ranks [OF u slash8]
  have len: "length (split_on CHR ''/'' (u @ r8)) = 8" and nu: "CHR '' '' \<notin> set u" by auto
  have np: "CHR '' '' \<notin> set (u @ r8)" using nu r8(2) space_not_rank by auto
  have nt: "CHR '' '' \<notin> set [t]" using t by auto
  have nc: "CHR '' '' \<notin> set c" using c(2) by auto
  have ne: "CHR '' '' \<notin> set e" using e(2) by auto
  have nh: "CHR '' '' \<notin> set h" using h(2) by (auto simp: digits_def)
  have fd: "f \<noteq> []" "set f \<subseteq> set digits" using f by (simp_all add: lang_OneOrMore_OneOf)
  then have nf: "CHR '' '' \<notin> set f" by (auto simp: digits_def)
  have "split_on CHR '' '' s = (u @ r8) # split_on CHR '' '' ([t] @ CHR '' '' # c @ CHR '' '' # e @ CHR '' '' # h @ CHR '' '' # f)"
    unfolding shape ws using split_on_app [OF np] by simp
  also have "split_on CHR '' '' ([t] @ CHR '' '' # c @ CHR '' '' # e @ CHR '' '' # h @ CHR '' '' # f)
     = [t] # split_on CHR '' '' (c @ CHR '' '' # e @ CHR '' '' # h @ CHR '' '' # f)"
    by (rule split_on_app [OF nt])
  also have "split_on CHR '' '' (c @ CHR '' '' # e @ CHR '' '' # h @ CHR '' '' # f)
     = c # split_on CHR '' '' (e @ CHR '' '' # h @ CHR '' '' # f)"
    by (rule split_on_app [OF nc])
  also have "split_on CHR '' '' (e @ CHR '' '' # h @ CHR '' '' # f)
     = e # split_on CHR '' '' (h @ CHR '' '' # f)"
    by (rule split_on_app [OF ne])
  also have "split_on CHR '' '' (h @ CHR '' '' # f) = h # split_on CHR '' '' f"
    by (rule split_on_app [OF nh])
  also have "split_on CHR '' '' f = [f]"
    by (rule split_on_none [OF nf])
  finally have parts: "split_on CHR '' '' s = [u @ r8, [t], c, e, h, f]" .
  have "matches number_re h" "matches number_re f"
    using h fd by (simp_all add: number_re_def matches_lang lang_OneOrMore_OneOf)
  moreover have "s \<noteq> []" unfolding shape by simp
  ultimately show ?thesis using parts len t by blast
qed

lemma STARTING_FEN_valid: "isValidFEN STARTING_FEN"
  by code_simp

lemma STARTING_FEN_accepted: "server_accepts STARTING_FEN"
  by code_simp

text \<open>
  Claim C2, as stated: every string that the server's regular expression accepts is
  accepted by the client's validator. It fails: the expression does not count the
  squares of a rank, so it accepts a position of eight one-square ranks, which the
  client rejects.
\<close>

theorem server_not_stricter:
  "server_accepts ''1/1/1/1/1/1/1/1 w - - 0 1'' \<and> \<not> isValidFEN ''1/1/1/1/1/1/1/1 w - - 0 1''"
  by code_simp

text \<open>
  Claim C2, amended: the server's expression covers the six-field shape, and a string
  it accepts is accepted by the client's validator whenever, in addition, its
  separators are space characters, each of its eight ranks expands to exactly eight
  squares, and its castling and en-passant fields pass the client's two expressions.
  (The field count, the rank count, the turn and the two counters follow from the
  server's expression.)
\<close>

theorem server_accepts_client:
  assumes "server_accepts s"
    and "\<forall>c\<in>set s. c \<in> set white_space \<longrightarrow> c = CHR '' ''"
    and "\<forall>r\<in>set (split_on CHR ''/'' (split_on CHR '' '' s ! 0)). rank_sum r 0 = Some 8"
    and "matches castling_re (split_on CHR '' '' s ! 2)"
    and "matches enPassant_re (split_on CHR '' '' s ! 3)"
  shows "isValidFEN s"
proof -
  from server_fields [OF assms(1,2)] obtain p t c e h f where
    parts: "split_on CHR '' '' s = [p, [t], c, e, h, f]" and ne: "s \<noteq> []"
    and len: "length (split_on CHR ''/'' p) = 8" and t: "t \<in> set ''bw''"
    and num: "matches number_re h" "matches number_re f"
    by blast
  from assms(3) have "ranks_ok (split_on CHR ''/'' p)"
    by (simp add: parts ranks_ok_iff)
  moreover from t have "includes_str ''wb'' [t]"
    by (auto simp: includes_single)
  moreover from assms(4,5) have "matches castling_re c" "matches enPassant_re e"
    by (simp_all add: parts)
  ultimately show ?thesis
    using ne len num by (simp add: isValidFEN_def parts)
qed

theorem server_accepts_client_witness:
  "server_accepts STARTING_FEN
   \<and> list_all (\<lambda>c. if c \<in> set white_space then c = CHR '' '' else True) STARTING_FEN
   \<and> list_all (\<lambda>r. rank_sum r 0 = Some 8)
        (split_on CHR ''/'' (split_on CHR '' '' STARTING_FEN ! 0))
   \<and> matches castling_re (split_on CHR '' '' STARTING_FEN ! 2)
   \<and> matches enPassant_re (split_on CHR '' '' STARTING_FEN ! 3)
   \<and> isValidFEN STARTING_FEN"
proof -
  have h1: "server_accepts STARTING_FEN" by code_simp
  have l2: "list_all (\<lambda>c. if c \<in> set white_space then c = CHR '' '' else True) STARTING_FEN"
    by code_simp
  have l3: "list_all (\<lambda>r. rank_sum r 0 = Some 8)
              (split_on CHR ''/'' (split_on CHR '' '' STARTING_FEN ! 0))"
    by code_simp
  have h4: "matches castling_re (split_on CHR '' '' STARTING_FEN ! 2)" by code_simp
  have h5: "matches enPassant_re (split_on CHR '' '' STARTING_FEN ! 3)" by code_simp
  from l2 have h2: "\<forall>c\<in>set STARTING_FEN. c \<in> set white_space \<longrightarrow> c = CHR '' ''"
    unfolding list_all_iff by (auto split: if_splits)
  from l3 have h3: "\<forall>r\<in>set (split_on CHR ''/'' (split_on CHR '' '' STARTING_FEN ! 0)).
                      rank_sum r 0 = Some 8"
    unfolding list_all_iff .
  from server_accepts_client [OF h1 h2 h3 h4 h5] h1 l2 l3 h4 h5 show ?thesis by blast
qed

section \<open>The position extractor\<close>

lemma valid_attribute_valid: "valid_attribute el a = Some v \<Longrightarrow> isValidFEN v"
  by (auto simp: valid_attribute_def split: option.splits if_splits)

lemma first_valid_attribute_valid: "first_valid_attribute el as = Some v \<Longrightarrow> isValidFEN v"
  by (induction as) (auto split: option.splits dest: valid_attribute_valid)

lemma from_game_object_valid: "from_game_object doc = Some v \<Longrightarrow> isValidFEN v"
  by (auto simp: from_game_object_def split: option.splits getFen_result.splits if_splits)

lemma method1_valid: "method1 doc = Some v \<Longrightarrow> isValidFEN v"
  by (auto simp: method1_def split: option.splits dest: valid_attribute_valid)

lemma method2_valid: "method2 doc = Some v \<Longrightarrow> isValidFEN v"
  by (auto simp: method2_def split: option.splits
           dest: first_valid_attribute_valid from_game_object_valid)

lemma method3_valid: "method3 doc = Some v \<Longrightarrow> isValidFEN v"
  by (auto simp: method3_def split: option.splits dest: valid_attribute_valid)

lemma method4_valid: "method4 doc = Some v \<Longrightarrow> isValidFEN v"
  by (auto simp: method4_def split: option.splits dest: valid_attribute_valid)

text \<open>The value that \<^verbatim>\<open>isInActiveGame()\<close> returns is always truthy when it is called
  without a retry count: \<^verbatim>\<open>true\<close> when an indicator is present, and a Promise
  otherwise.\<close>

lemma isInActiveGame_truthy: "truthy (isInActiveGame pg 0)"
  by (subst isInActiveGame.simps) (simp add: Let_def MAX_RETRIES_def)

lemma getCurrentFEN_never_null: "getCurrentFEN pg \<noteq> None"
  by (simp add: getCurrentFEN_def isInActiveGame_truthy split: option.splits)

text \<open>
  Claim C3: \<^verbatim>\<open>getCurrentFEN\<close> returns null exactly when every strategy fails and the
  active-game heuristic is negative. On a page where no selector matches, every
  strategy fails and the heuristic, once awaited, is negative; yet the operation returns
  the starting position, because it tests the pending Promise, which is truthy.
\<close>

theorem getCurrentFEN_blank_page:
  "method1 blank_page = None \<and> method2 blank_page = None
   \<and> method3 blank_page = None \<and> method4 blank_page = None
   \<and> await (isInActiveGame (\<lambda>k. blank_page) 0) = False
   \<and> getCurrentFEN (\<lambda>k. blank_page) = Some STARTING_FEN"
  by code_simp

text \<open>
  Claim C9: every string that \<^verbatim>\<open>getCurrentFEN\<close> returns passes \<^verbatim>\<open>isValidFEN\<close>, and so
  does the starting position that it falls back to.
\<close>

theorem getCurrentFEN_valid:
  "isValidFEN STARTING_FEN \<and> (getCurrentFEN pg = Some fen \<longrightarrow> isValidFEN fen)"
proof (intro conjI impI)
  show "isValidFEN STARTING_FEN" by (rule STARTING_FEN_valid)
next
  assume "getCurrentFEN pg = Some fen"
  then consider "method1 (pg 0) = Some fen" | "method2 (pg 0) = Some fen"
    | "method3 (pg 0) = Some fen" | "method4 (pg 0) = Some fen" | "fen = STARTING_FEN"
    by (auto simp: getCurrentFEN_def split: option.splits if_splits)
  then show "isValidFEN fen"
    by cases (simp_all add: method1_valid method2_valid method3_valid method4_valid
                STARTING_FEN_valid)
qed

theorem getCurrentFEN_valid_witness:
  "getCurrentFEN (\<lambda>k. game_page ''1. e4'') = Some STARTING_FEN \<and> isValidFEN STARTING_FEN"
proof -
  have "getCurrentFEN (\<lambda>k. game_page ''1. e4'') = Some STARTING_FEN" by code_simp
  with getCurrentFEN_valid [of "\<lambda>k. game_page ''1. e4''" STARTING_FEN] show ?thesis by simp
qed

section \<open>The validator and the field grammars\<close>

lemma matches_dash: "matches castling_re ''-''" "matches enPassant_re ''-''"
  by code_simp+

lemma matches_castling: "spec_castling c \<Longrightarrow> matches castling_re c"
proof -
  assume "spec_castling c"
  then consider "c = ''-''" | "c \<noteq> []" "set c \<subseteq> set ''KQkq''"
    by (auto simp: spec_castling_def)
  then show ?thesis
  proof cases
    case 1
    then show ?thesis by (simp only: matches_dash)
  next
    case 2
    then have "c \<in> lang (OneOrMore (Atom (OneOf ''KQkq'')))"
      by (simp only: lang_OneOrMore_OneOf) simp
    moreover have "[] \<in> lang (Star (Atom AnyChar))"
      by (simp add: star.star_nil)
    ultimately have "[] @ c \<in> lang (Seq (Star (Atom AnyChar)) (OneOrMore (Atom (OneOf ''KQkq''))))"
      unfolding lang.simps(4) by blast
    then show ?thesis
      by (simp add: matches_lang castling_re_def)
  qed
qed

lemma matches_enPassant: "spec_enPassant e \<Longrightarrow> matches enPassant_re e"
proof -
  assume "spec_enPassant e"
  then consider "e = ''-''"
    | f r where "e = [f, r]" "f \<in> set ''abcdefgh''" "r \<in> set ''36''"
    by (cases e; cases "tl e") (auto simp: spec_enPassant_def)
  then show ?thesis
  proof cases
    case 1
    then show ?thesis by (simp only: matches_dash)
  next
    case 2
    then have "[f] \<in> lang (Atom (OneOf ''abcdefgh''))" "[r] \<in> lang (Atom (OneOf ''36''))"
      by simp_all
    then have "[f] @ [r] \<in> lang (Seq (Atom (OneOf ''abcdefgh'')) (Atom (OneOf ''36'')))"
      unfolding lang.simps(4) by blast
    with 2(1) show ?thesis
      by (simp add: matches_lang enPassant_re_def)
  qed
qed

lemma matches_counter: "spec_counter n \<Longrightarrow> matches number_re n"
  by (simp add: spec_counter_def number_re_def matches_lang lang_OneOrMore_OneOf)

text \<open>The validator accepts every string of six space-separated fields whose first
  field has eight slash-separated ranks of eight squares each and whose other fields
  follow their grammars.\<close>

lemma isValidFEN_well_formed:
  assumes "split_on CHR '' '' fen = [p, t, c, e, h, f]"
    and "length (split_on CHR ''/'' p) = 8"
    and "\<forall>r\<in>set (split_on CHR ''/'' p). rank_sum r 0 = Some 8"
    and "spec_turn t" "spec_castling c" "spec_enPassant e" "spec_counter h" "spec_counter f"
  shows "isValidFEN fen"
proof -
  from assms(1) have "fen \<noteq> []" by auto
  moreover from assms(3) have "ranks_ok (split_on CHR ''/'' p)"
    by (simp add: ranks_ok_iff)
  moreover from assms(4) have "includes_str ''wb'' t"
    by (auto simp: spec_turn_def)
  ultimately show ?thesis
    using assms(1,2) matches_castling [OF assms(5)] matches_enPassant [OF assms(6)]
      matches_counter [OF assms(7)] matches_counter [OF assms(8)]
    by (simp add: isValidFEN_def)
qed

text \<open>
  Claim C4: a string of which a single field violates its grammar is invalid. The
  validator accepts a turn field \<open>wb\<close>, an empty turn field, and the castling fields
  \<open>-x\<close> and \<open>xK\<close>, none of which follows its grammar: the turn is tested as a
  substring of \<open>wb\<close>, and the castling expression anchors its two alternatives
  separately.
\<close>

theorem isValidFEN_loose_fields:
  "\<not> spec_turn ''wb'' \<and> \<not> spec_turn '''' \<and> \<not> spec_castling ''-x'' \<and> \<not> spec_castling ''xK''
   \<and> isValidFEN ''rnbqkbnr/pppppppp/8/8/8/8/PPPPPPPP/RNBQKBNR wb KQkq - 0 1''
   \<and> isValidFEN ''rnbqkbnr/pppppppp/8/8/8/8/PPPPPPPP/RNBQKBNR  KQkq - 0 1''
   \<and> isValidFEN ''rnbqkbnr/pppppppp/8/8/8/8/PPPPPPPP/RNBQKBNR w -x - 0 1''
   \<and> isValidFEN ''rnbqkbnr/pppppppp/8/8/8/8/PPPPPPPP/RNBQKBNR w xK - 0 1''"
  by code_simp

section \<open>The server's route\<close>

lemma limiter_consume_live:
  "limiter_get now key (snd (limiter_consume isProduction now key store))
     = Some (case limiter_get now key store of
               None \<Rightarrow> \<lparr>consumedPoints = 1, expiresAt = now + duration_ms\<rparr>
             | Some q0 \<Rightarrow> q0\<lparr>consumedPoints := consumedPoints q0 + 1\<rparr>)"
  by (auto simp: limiter_consume_def limiter_get_def duration_ms_def Let_def
           split: option.splits)

text \<open>Every call of \<^verbatim>\<open>consume\<close> counts one point for the caller.\<close>

lemma limiter_consume_counts:
  "consumed_by now key (snd (limiter_consume isProduction now key store))
     = Suc (consumed_by now key store)"
  unfolding consumed_by_def limiter_consume_live
  by (simp split: option.splits)

lemma limiter_consume_resolves:
  "\<not> exhausted isProduction now key store
   \<Longrightarrow> fst (limiter_consume isProduction now key store) = Resolved"
  by (auto simp: exhausted_def consumed_by_def limiter_consume_def Let_def points_def
           split: option.splits if_splits)

lemma limiter_consume_rejects:
  "exhausted isProduction now key store
   \<Longrightarrow> \<exists>ms. fst (limiter_consume isProduction now key store) = Rejected ms \<and> 0 < ms"
  by (auto simp: exhausted_def consumed_by_def limiter_consume_def limiter_get_def Let_def
                 points_def duration_ms_def
           split: option.splits if_splits)

text \<open>
  Claim C1, as stated: a request without \<^verbatim>\<open>gameState\<close> leaves the caller's quota
  counter as it was. It fails: the rate-limit middleware runs before the handler, so the
  request is answered with 400 and the caller's counter has gone from 0 to 1.
\<close>

theorem missing_gameState_consumes:
  "fst (suggest_move True knight_oracle 5 9 incomplete_request Map.empty)
     = BadRequest400 ''Missing required game information''
   \<and> consumed_by 5 (userId incomplete_request) Map.empty = 0
   \<and> consumed_by 9 (userId incomplete_request)
        (snd (snd (suggest_move True knight_oracle 5 9 incomplete_request Map.empty))) = 1"
  by (simp add: suggest_move_def limiter_consume_def limiter_get_def consumed_by_def
        incomplete_request_def userId_def handler_def points_def duration_ms_def)

text \<open>
  Claim C1, amended: for every request whose body lacks \<^verbatim>\<open>gameState\<close> or
  \<^verbatim>\<open>currentMove\<close>, from a caller whose quota is not exhausted, the service answers 400
  with the error \<open>Missing required game information\<close> and does not call the oracle;
  the request is counted against the caller's quota, whose counter is one higher after
  the request.
\<close>

theorem missing_field_rejected:
  assumes "gameState req = JUndefined \<or> currentMove req = JUndefined"
    and "\<not> exhausted isProduction started (userId req) store"
  shows "\<exists>store'. suggest_move isProduction oracle started finished req store
            = (BadRequest400 ''Missing required game information'', [], store')
          \<and> consumed_by started (userId req) store'
            = consumed_by started (userId req) store + 1"
proof -
  obtain c store' where c: "limiter_consume isProduction started (userId req) store = (c, store')"
    by (cases "limiter_consume isProduction started (userId req) store")
  with limiter_consume_resolves [OF assms(2)] have r: "c = Resolved" by simp
  from assms(1) have "\<not> truthy_value (gameState req) \<or> \<not> truthy_value (currentMove req)"
    by auto
  then have "handler isProduction oracle started finished req store'
               = (BadRequest400 ''Missing required game information'', [])"
    by (simp add: handler_def)
  with c r have "suggest_move isProduction oracle started finished req store
                   = (BadRequest400 ''Missing required game information'', [], store')"
    by (simp add: suggest_move_def)
  moreover from limiter_consume_counts [of started "userId req" isProduction store] c
  have "consumed_by started (userId req) store' = consumed_by started (userId req) store + 1"
    by simp
  ultimately show ?thesis by blast
qed

theorem missing_field_rejected_witness:
  "(gameState incomplete_request = JUndefined \<or> currentMove incomplete_request = JUndefined)
   \<and> \<not> exhausted True 5 (userId incomplete_request) Map.empty
   \<and> (\<exists>store'. suggest_move True knight_oracle 5 9 incomplete_request Map.empty
          = (BadRequest400 ''Missing required game information'', [], store')
        \<and> consumed_by 5 (userId incomplete_request) store'
          = consumed_by 5 (userId incomplete_request) Map.empty + 1)"
proof -
  have h1: "gameState incomplete_request = JUndefined \<or> currentMove incomplete_request = JUndefined"
    by (simp add: incomplete_request_def)
  have h2: "\<not> exhausted True 5 (userId incomplete_request) Map.empty"
    by (simp add: exhausted_def consumed_by_def limiter_get_def points_def)
  from missing_field_rejected [OF h1 h2, of knight_oracle 9] h1 h2 show ?thesis by blast
qed

text \<open>
  Claim C7: a request from a caller whose quota for the window is exhausted is answered
  with 429 and a \<^verbatim>\<open>retryAfter\<close> that is not negative, and the oracle is not called.
\<close>

theorem exhausted_rejected:
  assumes "exhausted isProduction started (userId req) store"
  shows "\<exists>retryAfter store'.
           suggest_move isProduction oracle started finished req store
             = (TooManyRequests429 ''Too many requests. Please try again later.'' retryAfter,
                [], store')
           \<and> 0 \<le> retryAfter"
proof -
  obtain c store' where c: "limiter_consume isProduction started (userId req) store = (c, store')"
    by (cases "limiter_consume isProduction started (userId req) store")
  with limiter_consume_rejects [OF assms] obtain ms where ms: "c = Rejected ms" "0 < ms" by auto
  with c have "suggest_move isProduction oracle started finished req store
     = (TooManyRequests429 ''Too many requests. Please try again later.'' (real_of_int ms / 1000),
        [], store')"
    by (simp add: suggest_move_def)
  moreover from ms(2) have "0 \<le> real_of_int ms / 1000" by simp
  ultimately show ?thesis by blast
qed

theorem exhausted_rejected_witness:
  "exhausted True 5 (userId start_request) spent_store
   \<and> (\<exists>retryAfter store'.
         suggest_move True knight_oracle 5 9 start_request spent_store
           = (TooManyRequests429 ''Too many requests. Please try again later.'' retryAfter,
              [], store')
         \<and> 0 \<le> retryAfter)"
proof -
  have h: "exhausted True 5 (userId start_request) spent_store"
    by (simp add: exhausted_def consumed_by_def limiter_get_def points_def spent_store_def
          start_request_def userId_def)
  from exhausted_rejected [OF h, of knight_oracle 9] h show ?thesis by blast
qed

text \<open>
  Claim C5: the remaining allowance is the cap of the deployment less the points
  consumed, and a successful response reports it one lower than before. Outside
  production the cap is 100 and \<^verbatim>\<open>getRemainingRequests\<close> subtracts from 10: after the
  first request of a caller the response reports 9, not 99. In production, a caller
  identified by the \<^verbatim>\<open>x-user-id\<close> header is charged under that identity while the
  allowance is read for the network address: the response reports 10, the value before
  the request, although one point was consumed.
\<close>

theorem remaining_requests_diverge:
  "points False = 100
   \<and> suggest_move False knight_oracle 5 9 start_request Map.empty
       = (Ok200 ''White Knight --> f3'' 9 4, [\<lparr>position = STARTING_FEN, move = JStr ''start'',
            colour = JUndefined\<rparr>],
          [''10.0.0.1'' \<mapsto> \<lparr>consumedPoints = 1, expiresAt = 86400005\<rparr>])
   \<and> getRemainingRequests 5 (ip start_request) Map.empty = 10
   \<and> fst (suggest_move True knight_oracle 5 9 (start_request\<lparr>x_user_id := Some ''alice''\<rparr>) Map.empty)
       = Ok200 ''White Knight --> f3'' 10 4
   \<and> consumed_by 9 ''alice''
        (snd (snd (suggest_move True knight_oracle 5 9
                     (start_request\<lparr>x_user_id := Some ''alice''\<rparr>) Map.empty))) = 1"
  by (simp add: suggest_move_def limiter_consume_def limiter_get_def consumed_by_def
        start_request_def userId_def handler_def points_def duration_ms_def
        STARTING_FEN_accepted [unfolded STARTING_FEN_def] STARTING_FEN_def knight_oracle_def
        getRemainingRequests_def trim_def white_space_def)

theorem remaining_requests_diverge_witness:
  "int (points False)
     - int (consumed_by 9 (userId start_request)
              (snd (snd (suggest_move False knight_oracle 5 9 start_request Map.empty)))) = 99
   \<and> getRemainingRequests 9 (ip start_request)
         (snd (snd (suggest_move False knight_oracle 5 9 start_request Map.empty))) = 9"
proof -
  from remaining_requests_diverge
  have "snd (snd (suggest_move False knight_oracle 5 9 start_request Map.empty))
          = [''10.0.0.1'' \<mapsto> \<lparr>consumedPoints = 1, expiresAt = 86400005\<rparr>]"
    by simp
  then show ?thesis
    by (simp add: getRemainingRequests_def consumed_by_def limiter_get_def points_def
          start_request_def userId_def)
qed

section \<open>The watcher and the single-flight guard\<close>

lemma analyzeMoves_twice: "analyzeMoves pg (analyzeMoves pg s) = analyzeMoves pg s"
  by (simp add: analyzeMoves_def Let_def split: option.splits)

lemma analyzeMoves_funpow:
  "(analyzeMoves pg ^^ k) s = (if k = 0 then s else analyzeMoves pg s)"
  by (induction k) (auto simp: analyzeMoves_twice)

text \<open>Where \<^verbatim>\<open>analyzeMoves\<close> finds the move list, the heuristic finds it too and returns
  \<^verbatim>\<open>true\<close> at once.\<close>

lemma isInActiveGame_move_list:
  "move_list (pg 0) = Some content \<Longrightarrow> isInActiveGame pg 0 = Plain True"
  by (subst isInActiveGame.simps) (simp add: gameIndicators_def Let_def)

lemma settle_idle: "awaiting s = [] \<Longrightarrow> settle pg s = s"
  by (simp add: settle_def)

lemma settle_ready:
  "awaiting s = [(gs, Plain b)]
   \<Longrightarrow> settle pg s = getAnalysis_resume pg gs b (s\<lparr>awaiting := []\<rparr>)"
  by (simp add: settle_def)

lemma getAnalysis_resume_single_flight:
  assumes "awaiting s = []" "in_flight s = []"
  shows "single_flight (getAnalysis_resume pg gs b s)"
proof (cases "getCurrentFEN pg")
  case None
  with getCurrentFEN_never_null [of pg] show ?thesis by simp
next
  case (Some fen)
  with assms show ?thesis
    by (simp add: single_flight_def getAnalysis_resume_def finally_block_def Let_def)
qed

lemma analyzeMoves_guarded:
  assumes "isAnalyzing s"
  shows "in_flight (analyzeMoves pg s) = in_flight s \<and> sent (analyzeMoves pg s) = sent s
         \<and> awaiting (analyzeMoves pg s) = awaiting s \<and> isAnalyzing (analyzeMoves pg s)"
  using assms by (simp add: analyzeMoves_def getAnalysis_def Let_def split: option.splits)

lemma analyzeMoves_free:
  assumes "\<not> isAnalyzing s" "awaiting s = []" "in_flight s = []"
  shows "single_flight (settle pg (analyzeMoves pg s))"
proof (cases "move_list (pg 0)")
  case None
  with assms show ?thesis
    by (simp add: analyzeMoves_def settle_idle single_flight_def)
next
  case (Some content)
  show ?thesis
  proof (cases "Some (trim content) = lastMoves s")
    case True
    with Some assms show ?thesis
      by (simp add: analyzeMoves_def settle_idle single_flight_def Let_def)
  next
    case False
    let ?gs = "formatGameState (trim content)"
    let ?s' = "analyzeMoves pg s"
    from Some False assms have aw: "awaiting ?s' = [(?gs, Plain True)]"
      and fl: "in_flight ?s' = []"
      by (simp_all add: analyzeMoves_def getAnalysis_def Let_def isInActiveGame_move_list)
    from settle_ready [OF aw]
    have "settle pg ?s' = getAnalysis_resume pg ?gs True (?s'\<lparr>awaiting := []\<rparr>)" .
    moreover have "single_flight (getAnalysis_resume pg ?gs True (?s'\<lparr>awaiting := []\<rparr>))"
      by (rule getAnalysis_resume_single_flight) (simp_all add: fl)
    ultimately show ?thesis by simp
  qed
qed

lemma step_Observed:
  assumes "single_flight s"
  shows "single_flight (step s (Observed pg k))
         \<and> (in_flight s \<noteq> [] \<longrightarrow>
              in_flight (step s (Observed pg k)) = in_flight s
              \<and> sent (step s (Observed pg k)) = sent s)"
proof (cases "k = 0")
  case True
  with assms show ?thesis by (simp add: single_flight_def settle_idle)
next
  case False
  then have st: "step s (Observed pg k) = settle pg (analyzeMoves pg s)"
    by (simp add: analyzeMoves_funpow)
  show ?thesis
  proof (cases "isAnalyzing s")
    case True
    from analyzeMoves_guarded [OF True, of pg] assms
    have "awaiting (analyzeMoves pg s) = []" by (simp add: single_flight_def)
    then have "settle pg (analyzeMoves pg s) = analyzeMoves pg s" by (rule settle_idle)
    with st analyzeMoves_guarded [OF True, of pg] assms True show ?thesis
      by (auto simp: single_flight_def)
  next
    case False
    with assms have "awaiting s = []" "in_flight s = []" by (auto simp: single_flight_def)
    with analyzeMoves_free [OF False this, of pg] st show ?thesis by simp
  qed
qed

lemma catch_block_flag: "\<not> isAnalyzing (catch_block msg s)"
  by (simp add: catch_block_def finally_block_def Let_def)

lemma catch_block_pending:
  "in_flight (catch_block msg s) = in_flight s \<and> awaiting (catch_block msg s) = awaiting s"
  by (simp add: catch_block_def finally_block_def Let_def)

lemma getAnalysis_finish_flag: "\<not> isAnalyzing (getAnalysis_finish outcome s)"
  by (simp add: getAnalysis_finish_def finally_block_def catch_block_flag
           split: fetch_outcome.splits)

lemma getAnalysis_finish_pending:
  "in_flight (getAnalysis_finish outcome s) = in_flight s
   \<and> awaiting (getAnalysis_finish outcome s) = awaiting s"
  by (simp add: getAnalysis_finish_def finally_block_def catch_block_pending
           split: fetch_outcome.splits)

lemma step_single_flight:
  assumes "single_flight s"
  shows "single_flight (step s e)"
proof (cases e)
  case (Observed pg k)
  with step_Observed [OF assms] show ?thesis by simp
next
  case (RetryTimer i pg)
  with assms show ?thesis by (simp add: single_flight_def)
next
  case (FetchSettled i outcome)
  show ?thesis
  proof (cases "i < length (in_flight s)")
    case True
    with assms have "take i (in_flight s) @ drop (Suc i) (in_flight s) = []"
      by (auto simp: single_flight_def)
    with True FetchSettled assms show ?thesis
      by (simp add: single_flight_def getAnalysis_finish_flag getAnalysis_finish_pending)
  next
    case False
    with FetchSettled assms show ?thesis by simp
  qed
next
  case (HealthChecked ok)
  with assms show ?thesis by (simp add: single_flight_def checkBackendConnection_def)
qed

lemma foldl_single_flight: "single_flight s \<Longrightarrow> single_flight (foldl step s events)"
  by (induction events arbitrary: s) (simp_all add: step_single_flight)

lemma run_single_flight: "single_flight (run events)"
  unfolding run_def by (rule foldl_single_flight) (simp add: single_flight_def initial_def)

text \<open>The guard of \<^verbatim>\<open>getAnalysis\<close> is set only after \<^verbatim>\<open>await isInActiveGame()\<close>: two
  calls made while the heuristic is still retrying both pass it. The watcher never
  calls it so, as it calls only where the move list is present.\<close>

lemma getAnalysis_window:
  "awaiting (getAnalysis (\<lambda>k. blank_page) gs (getAnalysis (\<lambda>k. blank_page) gs initial))
     = [(gs, Promise (Promise (Promise (Plain False)))),
        (gs, Promise (Promise (Promise (Plain False))))]"
proof -
  have "isInActiveGame (\<lambda>k. blank_page) 0 = Promise (Promise (Promise (Plain False)))"
    by code_simp
  then show ?thesis by (simp add: getAnalysis_def initial_def)
qed

text \<open>
  Claim C6: while a suggestion request is in flight, a further trigger issues no
  network call and is dropped without a message, and at most one request is in flight
  at any time. The states are those the script reaches from its initial state by any
  sequence of events; a trigger is a call of \<^verbatim>\<open>getAnalysis\<close>, which the observer's
  callback makes through \<^verbatim>\<open>analyzeMoves\<close>.
\<close>

theorem single_flight_guard:
  "length (in_flight (run events)) \<le> 1
   \<and> (in_flight (run events) \<noteq> [] \<longrightarrow>
        getAnalysis pg gs (run events) = run events
        \<and> in_flight (step (run events) (Observed pg k)) = in_flight (run events)
        \<and> sent (step (run events) (Observed pg k)) = sent (run events))"
proof -
  have inv: "single_flight (run events)" by (rule run_single_flight)
  then have "length (in_flight (run events)) \<le> 1"
    by (auto simp: single_flight_def)
  moreover from inv have "in_flight (run events) \<noteq> [] \<longrightarrow>
      getAnalysis pg gs (run events) = run events"
    by (auto simp: single_flight_def getAnalysis_def)
  ultimately show ?thesis using step_Observed [OF inv, of pg k] by blast
qed

theorem single_flight_guard_witness:
  "in_flight (run [HealthChecked True, Observed (\<lambda>k. game_page ''1. e4'') 1]) \<noteq> []
   \<and> in_flight (step (run [HealthChecked True, Observed (\<lambda>k. game_page ''1. e4'') 1])
                   (Observed (\<lambda>k. game_page ''1. e4 e5'') 1))
     = in_flight (run [HealthChecked True, Observed (\<lambda>k. game_page ''1. e4'') 1])
   \<and> length (in_flight (run [HealthChecked True, Observed (\<lambda>k. game_page ''1. e4'') 1])) \<le> 1"
proof -
  have "in_flight (run [HealthChecked True, Observed (\<lambda>k. game_page ''1. e4'') 1]) \<noteq> []"
    by code_simp
  with single_flight_guard [of "[HealthChecked True, Observed (\<lambda>k. game_page ''1. e4'') 1]"
      "\<lambda>k. game_page ''1. e4 e5''" "formatGameState ''1. e4 e5''" 1]
  show ?thesis by simp
qed

text \<open>
  Claim C8: when the change handler runs and the text of the move list equals the
  recorded text, nothing changes: no suggestion request is triggered, and the recorded
  text and the move counter stay as they are.
\<close>

theorem analyzeMoves_unchanged:
  assumes "move_list (pg 0) = Some contentContent"
    and "lastMoves s = Some (trim contentContent)"
  shows "analyzeMoves pg s = s"
  using assms by (simp add: analyzeMoves_def Let_def)

theorem analyzeMoves_unchanged_witness:
  "move_list ((\<lambda>k. game_page ''1. e4'') 0) = Some ''1. e4''
   \<and> lastMoves (initial\<lparr>lastMoves := Some ''1. e4''\<rparr>) = Some (trim ''1. e4'')
   \<and> analyzeMoves (\<lambda>k. game_page ''1. e4'') (initial\<lparr>lastMoves := Some ''1. e4''\<rparr>)
     = initial\<lparr>lastMoves := Some ''1. e4''\<rparr>"
proof -
  have h1: "move_list ((\<lambda>k. game_page ''1. e4'') 0) = Some ''1. e4''"
    by (simp add: game_page_def)
  have h2: "lastMoves (initial\<lparr>lastMoves := Some ''1. e4''\<rparr>) = Some (trim ''1. e4'')"
    by (simp add: trim_def white_space_def)
  from analyzeMoves_unchanged [OF h1 h2] h1 h2 show ?thesis by blast
qed

text \<open>
  Claim C10: an invocation of \<^verbatim>\<open>getAnalysis\<close> that has passed the guard leaves the flag
  false when it completes, on every path: when it ends before a request is issued (a
  failed precondition, or no position), and when the request it issued settles (with
  a suggestion or with an error). In every state the script reaches, the flag is set
  only while a request is pending, so a dropped trigger is never locked out for good.
\<close>

theorem guard_released:
  "\<not> isAnalyzing (getAnalysis_finish outcome s)
   \<and> (in_flight (getAnalysis_resume pg gs isInGame t) = in_flight t
        \<longrightarrow> \<not> isAnalyzing (getAnalysis_resume pg gs isInGame t))
   \<and> (isAnalyzing (run events) \<longrightarrow> in_flight (run events) \<noteq> [])"
proof (intro conjI impI)
  show "\<not> isAnalyzing (getAnalysis_finish outcome s)"
    by (rule getAnalysis_finish_flag)
next
  assume "in_flight (getAnalysis_resume pg gs isInGame t) = in_flight t"
  then show "\<not> isAnalyzing (getAnalysis_resume pg gs isInGame t)"
    by (auto simp: getAnalysis_resume_def finally_block_def catch_block_flag Let_def
             split: if_splits option.splits)
next
  assume "isAnalyzing (run events)"
  with run_single_flight [of events] show "in_flight (run events) \<noteq> []"
    by (auto simp: single_flight_def)
qed

theorem guard_released_witness:
  "in_flight (getAnalysis_resume (\<lambda>k. blank_page) (formatGameState '''') False initial)
     = in_flight initial
   \<and> \<not> isAnalyzing (getAnalysis_resume (\<lambda>k. blank_page) (formatGameState '''') False initial)
   \<and> isAnalyzing (run [HealthChecked True, Observed (\<lambda>k. game_page ''1. e4'') 1])
   \<and> in_flight (run [HealthChecked True, Observed (\<lambda>k. game_page ''1. e4'') 1]) \<noteq> []
   \<and> \<not> isAnalyzing (getAnalysis_finish (Ok_data ''White Knight --> f3'' 9)
         (run [HealthChecked True, Observed (\<lambda>k. game_page ''1. e4'') 1]))"
proof -
  have h1: "in_flight (getAnalysis_resume (\<lambda>k. blank_page) (formatGameState '''') False initial)
              = in_flight initial"
    by (simp add: getAnalysis_resume_def finally_block_def)
  have h2: "isAnalyzing (run [HealthChecked True, Observed (\<lambda>k. game_page ''1. e4'') 1])"
    by code_simp
  from guard_released [of "Ok_data ''White Knight --> f3'' 9"
      "run [HealthChecked True, Observed (\<lambda>k. game_page ''1. e4'') 1]"
      "\<lambda>k. blank_page" "formatGameState ''''" False initial
      "[HealthChecked True, Observed (\<lambda>k. game_page ''1. e4'') 1]"] h1 h2
  show ?thesis by blast
qed

end
